theory Spec2Isabelle
  imports Main
begin

section \<open>The indexed component view of the ECS sample\<close>

text \<open>
  The source is one member function, \<^verbatim>\<open>ComponentView<ID_T, COMPS...>::operator[](size_t i)\<close>
  of \<^verbatim>\<open>metaprogramming-sample.hpp\<close>. Everything it calls is declared elsewhere: the
  World's member functions, the component registry, the component arrays, the type of the
  member \<^verbatim>\<open>ind_\<close>, and the templates \<^verbatim>\<open>StripConstPtr\<close> and \<^verbatim>\<open>__detail::MaybeDeref\<close>.
  The embedding keeps the operator as it is written and takes what is declared elsewhere
  as parameters, or models it from the comments of the source and from the specification
  where a claim is about it.
\<close>

subsection \<open>Requested component types\<close>

text \<open>
  An element of the pack \<^verbatim>\<open>COMPS\<close> is a C++ type: a component kind, possibly under
  \<^verbatim>\<open>const\<close> and \<^verbatim>\<open>*\<close>. \<^verbatim>\<open>const T*\<close> is \<open>Pointer_to (Const_of (Bare T))\<close>,
  \<^verbatim>\<open>T* const\<close> is \<open>Const_of (Pointer_to (Bare T))\<close>.
\<close>

datatype 'k ctype = Bare 'k | Const_of "'k ctype" | Pointer_to "'k ctype"

text \<open>\<^verbatim>\<open>std::is_pointer_v\<close>: true of a pointer type and of its cv-qualified versions.\<close>

fun is_pointer_v :: "'k ctype \<Rightarrow> bool" where
  "is_pointer_v (Bare k) = False"
| "is_pointer_v (Const_of t) = is_pointer_v t"
| "is_pointer_v (Pointer_to t) = True"

text \<open>
  Modelled from the spec: the template \<^verbatim>\<open>StripConstPtr\<close> is not in the source file. The
  source comment says that const and * are stripped by it, the specification that
  storage lookup is keyed by the bare kind.
\<close>

fun StripConstPtr :: "'k ctype \<Rightarrow> 'k" where
  "StripConstPtr (Bare k) = k"
| "StripConstPtr (Const_of t) = StripConstPtr t"
| "StripConstPtr (Pointer_to t) = StripConstPtr t"

subsection \<open>Failures\<close>

text \<open>
  \<open>IndexOutOfRange\<close> is what a range-checked subscript of the index storage raises.
  \<open>NullDereference\<close> stands for the undefined behaviour of binding a reference to the
  target of a null pointer. \<open>EmptyPack\<close> stands for the instantiation with no component
  type, which \<^verbatim>\<open>std::tuple_element_t<0, std::tuple<>>\<close> rejects.
\<close>

datatype error = IndexOutOfRange | NullDereference | EmptyPack

subsection \<open>The result\<close>

text \<open>
  A component handle is what \<^verbatim>\<open>get_by_index\<close> returns: a pointer, \<open>None\<close> when null.
  A field of the result is an lvalue reference (a mandatory kind) or the pointer itself
  (an optional kind). The tuple of fields is a list in the order of the pack.
\<close>

datatype 'h field = Ref 'h | Ptr "'h option"

fun handle_of :: "'h field \<Rightarrow> 'h option" where
  "handle_of (Ref h) = Some h"
| "handle_of (Ptr p) = p"

fun is_Ptr :: "'h field \<Rightarrow> bool" where
  "is_Ptr (Ref h) = False"
| "is_Ptr (Ptr p) = True"

record ('id, 'h) ComponentSet =
  entity :: 'id
  components :: "'h field list"

text \<open>
  Modelled from the spec: \<^verbatim>\<open>__detail::MaybeDeref\<close> is not in the source file. The source
  comment says that it converts the pointer to an lvalue reference if the requested type
  is not a pointer, and leaves the pointer as it is otherwise.
\<close>

fun MaybeDeref :: "bool \<Rightarrow> 'h option \<Rightarrow> error + 'h field" where
  "MaybeDeref True p = Inr (Ptr p)"
| "MaybeDeref False (Some h) = Inr (Ref h)"
| "MaybeDeref False None = Inl NullDereference"

subsection \<open>The collaborators\<close>

text \<open>
  The member functions of the World, of its registry \<^verbatim>\<open>compReg_\<close> and of a component
  array are called by the operator and defined elsewhere. They are parameters here, each
  a function of the state \<open>'w\<close> of the world that returns its result and the state it
  leaves; \<open>'a\<close> is a reference to a component array.
\<close>

record ('id, 'k, 'a, 'h, 'w) World =
  comp_get_entity :: "'k \<Rightarrow> nat \<Rightarrow> 'w \<Rightarrow> 'id \<times> 'w"
  get_array :: "'k \<Rightarrow> 'w \<Rightarrow> 'a \<times> 'w"
  get_by_index :: "'a \<Rightarrow> nat \<Rightarrow> 'w \<Rightarrow> 'h option \<times> 'w"

text \<open>
  The view object: the member \<^verbatim>\<open>world_\<close>, a reference, as the state of the world it
  refers to, and the member \<^verbatim>\<open>ind_\<close>, one sequence of internal indices for each
  requested type. (An identifier of the logic cannot end with an underscore.)
\<close>

record 'w ComponentView =
  world :: 'w
  ind :: "nat list list"

text \<open>
  The expression \<^verbatim>\<open>ind_[j][i]\<close>. The type of \<^verbatim>\<open>ind_\<close> is declared elsewhere; what its
  subscript does out of range is the parameter \<open>oob\<close>.
\<close>

type_synonym out_of_range = "nat list list \<Rightarrow> nat \<Rightarrow> nat \<Rightarrow> error + nat"

definition subscript :: "out_of_range \<Rightarrow> nat list list \<Rightarrow> nat \<Rightarrow> nat \<Rightarrow> error + nat" where
  "subscript oob xs j i =
     (if j < length xs \<and> i < length (xs ! j) then Inr (xs ! j ! i) else oob xs j i)"

text \<open>A subscript that checks its range, and one that reads whatever is there.\<close>

definition range_checked :: out_of_range where
  "range_checked xs j i = Inl IndexOutOfRange"

definition unchecked_zero :: out_of_range where
  "unchecked_zero xs j i = Inr 0"

subsection \<open>The operator\<close>

text \<open>
  One element of the pack expansion, for the requested type \<open>C\<close> and the value \<open>j\<close> of
  the counter: \<^verbatim>\<open>MaybeDeref<is_pointer_v<C>>::deref(world_.compReg_.get_array<StripConstPtr<C>>().get_by_index(ind_[j++][i]))\<close>.
  The array is obtained before the argument is evaluated (the order of C++17, the
  language level of \<^verbatim>\<open>std::is_pointer_v\<close>). The operands of type \<^verbatim>\<open>size_t\<close> are
  natural numbers; a negative argument reaches the operator as a large one.
\<close>

definition get_component ::
  "('id, 'k, 'a, 'h, 'w) World \<Rightarrow> out_of_range \<Rightarrow> nat \<Rightarrow> 'k ctype \<Rightarrow> nat \<Rightarrow>
   'w ComponentView \<Rightarrow> (error + 'h field) \<times> 'w ComponentView" where
  "get_component W oob i C j s =
     (case get_array W (StripConstPtr C) (world s) of (arr, w1) \<Rightarrow>
        (case subscript oob (ind s) j i of
           Inl e \<Rightarrow> (Inl e, s\<lparr>world := w1\<rparr>)
         | Inr n \<Rightarrow>
             (case get_by_index W arr n w1 of (p, w2) \<Rightarrow>
                (MaybeDeref (is_pointer_v C) p, s\<lparr>world := w2\<rparr>))))"

text \<open>
  The pack expansion inside the braced initialiser list, whose clauses are evaluated
  from left to right; \<open>j\<close> is the local counter, incremented by each element.
\<close>

fun pack_expansion ::
  "('id, 'k, 'a, 'h, 'w) World \<Rightarrow> out_of_range \<Rightarrow> nat \<Rightarrow> 'k ctype list \<Rightarrow> nat \<Rightarrow>
   'w ComponentView \<Rightarrow> (error + 'h field list) \<times> 'w ComponentView" where
  "pack_expansion W oob i [] j s = (Inr [], s)"
| "pack_expansion W oob i (C # Cs) j s =
     (case get_component W oob i C j s of
        (Inl e, s1) \<Rightarrow> (Inl e, s1)
      | (Inr f, s1) \<Rightarrow>
          (case pack_expansion W oob i Cs (Suc j) s1 of
             (Inl e, s2) \<Rightarrow> (Inl e, s2)
           | (Inr fs, s2) \<Rightarrow> (Inr (f # fs), s2)))"

text \<open>\<^verbatim>\<open>FirstComponentType\<close>: element 0 of the tuple of stripped types.\<close>

fun FirstComponentType :: "'k ctype list \<Rightarrow> 'k option" where
  "FirstComponentType [] = None"
| "FirstComponentType (C # Cs) = Some (StripConstPtr C)"

text \<open>
  \<^verbatim>\<open>operator[](size_t i)\<close>: the entity identifier first, from \<^verbatim>\<open>ind_[0][i]\<close>, then the
  components, with the counter starting at 0.
\<close>

definition operator_index ::
  "('id, 'k, 'a, 'h, 'w) World \<Rightarrow> out_of_range \<Rightarrow> 'k ctype list \<Rightarrow> nat \<Rightarrow>
   'w ComponentView \<Rightarrow> (error + ('id, 'h) ComponentSet) \<times> 'w ComponentView" where
  "operator_index W oob COMPS i s =
     (case FirstComponentType COMPS of
        None \<Rightarrow> (Inl EmptyPack, s)
      | Some k0 \<Rightarrow>
          (case subscript oob (ind s) 0 i of
             Inl e \<Rightarrow> (Inl e, s)
           | Inr n \<Rightarrow>
               (case comp_get_entity W k0 n (world s) of (eid, w1) \<Rightarrow>
                  (case pack_expansion W oob i COMPS 0 (s\<lparr>world := w1\<rparr>) of
                     (Inl e, s2) \<Rightarrow> (Inl e, s2)
                   | (Inr fs, s2) \<Rightarrow> (Inr \<lparr>entity = eid, components = fs\<rparr>, s2)))))"

subsection \<open>Notions of the specification\<close>

text \<open>
  Modelled from the spec: \<^verbatim>\<open>size()\<close> is not in the source file. The specification says
  that it is the common length of the index sequences.
\<close>

fun size_view :: "'w ComponentView \<Rightarrow> nat" where
  "size_view s = (case ind s of [] \<Rightarrow> 0 | xs # xss \<Rightarrow> length xs)"

text \<open>
  Invariant 1 of the data model: one sequence for each requested type, all of the
  length of the view.
\<close>

definition well_formed :: "'k ctype list \<Rightarrow> 'w ComponentView \<Rightarrow> bool" where
  "well_formed COMPS s =
     (length (ind s) = length COMPS \<and> list_all (\<lambda>xs. length xs = size_view s) (ind s))"

text \<open>The collaborators only read: each leaves the state of the world as it was.\<close>

definition read_only :: "('id, 'k, 'a, 'h, 'w) World \<Rightarrow> bool" where
  "read_only W =
     ((\<forall>k n w. snd (comp_get_entity W k n w) = w) \<and>
      (\<forall>k w. snd (get_array W k w) = w) \<and>
      (\<forall>a n w. snd (get_by_index W a n w) = w))"

text \<open>The identifier the World resolves an internal index of a kind to.\<close>

definition resolve_entity_id :: "('id, 'k, 'a, 'h, 'w) World \<Rightarrow> 'k \<Rightarrow> nat \<Rightarrow> 'w \<Rightarrow> 'id" where
  "resolve_entity_id W k n w = fst (comp_get_entity W k n w)"

text \<open>The handle that the array of a kind reports at an internal index.\<close>

definition stored_handle :: "('id, 'k, 'a, 'h, 'w) World \<Rightarrow> 'k \<Rightarrow> nat \<Rightarrow> 'w \<Rightarrow> 'h option" where
  "stored_handle W k n w = fst (get_by_index W (fst (get_array W k w)) n w)"

text \<open>
  The precondition on the arrays: at position \<open>i\<close>, the array of every mandatory kind
  holds a value at the internal index that the view stores for it.
\<close>

definition array_contract ::
  "('id, 'k, 'a, 'h, 'w) World \<Rightarrow> 'k ctype list \<Rightarrow> nat \<Rightarrow> 'w ComponentView \<Rightarrow> bool" where
  "array_contract W COMPS i s =
     list_all (\<lambda>k. is_pointer_v (COMPS ! k) \<or>
                   stored_handle W (StripConstPtr (COMPS ! k)) (ind s ! k ! i) (world s) \<noteq> None)
       [0..<length COMPS]"

subsection \<open>Observing the calls\<close>

text \<open>
  A world that behaves as \<open>W\<close> and also records each call made to it, in order. It
  is used to count the calls that one access makes.
\<close>

datatype ('k, 'a) call = Resolve 'k nat | Array 'k | Fetch 'a nat

definition traced ::
  "('id, 'k, 'a, 'h, 'w) World \<Rightarrow> ('id, 'k, 'a, 'h, 'w \<times> ('k, 'a) call list) World" where
  "traced W =
     \<lparr>comp_get_entity = (\<lambda>k n (w, t).
        (fst (comp_get_entity W k n w), (snd (comp_get_entity W k n w), t @ [Resolve k n]))),
      get_array = (\<lambda>k (w, t).
        (fst (get_array W k w), (snd (get_array W k w), t @ [Array k]))),
      get_by_index = (\<lambda>a n (w, t).
        (fst (get_by_index W a n w), (snd (get_by_index W a n w), t @ [Fetch a n])))\<rparr>"

text \<open>The calls of one access, from an empty record.\<close>

definition calls_of ::
  "('id, 'k, 'a, 'h, 'w) World \<Rightarrow> out_of_range \<Rightarrow> 'k ctype list \<Rightarrow> nat \<Rightarrow>
   'w ComponentView \<Rightarrow> ('k, 'a) call list" where
  "calls_of W oob COMPS i s =
     snd (world (snd (operator_index (traced W) oob COMPS i
                        \<lparr>world = (world s, []), ind = ind s\<rparr>)))"

subsection \<open>A concrete world\<close>

text \<open>
  The scenario of the specification: a view over a mandatory Position and an optional
  Velocity. The state of the world lists the live slots with the entity that owns each;
  a reference to an array is the kind it stores, a handle is the slot it points to.
\<close>

datatype kind = Position | Velocity

definition example_world ::
  "(nat, kind, kind, kind \<times> nat, ((kind \<times> nat) \<times> nat) list) World" where
  "example_world =
     \<lparr>comp_get_entity = (\<lambda>k n w. (case map_of w (k, n) of None \<Rightarrow> 0 | Some e \<Rightarrow> e, w)),
      get_array = (\<lambda>k w. (k, w)),
      get_by_index = (\<lambda>a n w. (case map_of w (a, n) of None \<Rightarrow> None | Some e \<Rightarrow> Some (a, n), w))\<rparr>"

definition example_view :: "((kind \<times> nat) \<times> nat) list ComponentView" where
  "example_view =
     \<lparr>world = [((Position, 0), 10), ((Position, 2), 11), ((Position, 5), 12), ((Velocity, 7), 11)],
      ind = [[2, 5], [7, 9]]\<rparr>"

text \<open>
  A view whose sequences are not aligned: at position 1 the Position index belongs to
  entity 12 and the Velocity index to entity 11.
\<close>

definition misaligned_view :: "((kind \<times> nat) \<times> nat) list ComponentView" where
  "misaligned_view =
     \<lparr>world = [((Position, 0), 10), ((Position, 2), 11), ((Position, 5), 12), ((Velocity, 7), 11)],
      ind = [[2, 5], [7, 7]]\<rparr>"

definition example_comps :: "kind ctype list" where
  "example_comps = [Bare Position, Pointer_to (Bare Velocity)]"

text \<open>The same two kinds with other qualifiers: an optional Position, a mandatory Velocity.\<close>

definition requalified_comps :: "kind ctype list" where
  "requalified_comps = [Pointer_to (Const_of (Bare Position)), Const_of (Bare Velocity)]"

section \<open>Properties\<close>

subsection \<open>The view object keeps its index sequences\<close>

lemma get_component_ind: "ind (snd (get_component W oob i C j s)) = ind s"
  by (simp add: get_component_def split: prod.splits sum.splits)

lemma pack_expansion_ind: "ind (snd (pack_expansion W oob i Cs j s)) = ind s"
proof (induction Cs arbitrary: j s)
  case Nil
  show ?case by simp
next
  case (Cons C Cs)
  have step: "ind (snd (pack_expansion W oob i Cs (Suc j) s1)) = ind s"
    if "snd (get_component W oob i C j s) = s1" for s1
    using that Cons.IH [of "Suc j" s1] get_component_ind [of W oob i C j s] by simp
  show ?case
    using step get_component_ind [of W oob i C j s]
    by (auto split: prod.splits sum.splits)
qed

lemma operator_index_unfold:
  assumes "FirstComponentType COMPS = Some k0" and "subscript oob (ind s) 0 i = Inr n"
  shows "operator_index W oob COMPS i s =
         (map_sum (\<lambda>e. e) (\<lambda>fs. \<lparr>entity = fst (comp_get_entity W k0 n (world s)), components = fs\<rparr>)
            (fst (pack_expansion W oob i COMPS 0 (s\<lparr>world := snd (comp_get_entity W k0 n (world s))\<rparr>))),
          snd (pack_expansion W oob i COMPS 0 (s\<lparr>world := snd (comp_get_entity W k0 n (world s))\<rparr>)))"
  using assms by (simp add: operator_index_def split: prod.splits sum.splits)

lemma operator_index_ind: "ind (snd (operator_index W oob COMPS i s)) = ind s"
proof (cases "FirstComponentType COMPS")
  case None
  then show ?thesis by (simp add: operator_index_def)
next
  case (Some k0)
  show ?thesis
  proof (cases "subscript oob (ind s) 0 i")
    case (Inl e)
    with Some show ?thesis by (simp add: operator_index_def)
  next
    case (Inr n)
    show ?thesis
      by (simp add: operator_index_unfold [OF Some Inr] pack_expansion_ind)
  qed
qed

lemma get_component_read_only:
  assumes "read_only W"
  shows "snd (get_component W oob i C j s) = s"
proof -
  obtain arr w1 where ga: "get_array W (StripConstPtr C) (world s) = (arr, w1)"
    by (cases "get_array W (StripConstPtr C) (world s)")
  have w1: "w1 = world s"
    using assms ga unfolding read_only_def by (metis snd_conv)
  show ?thesis
  proof (cases "subscript oob (ind s) j i")
    case (Inl e)
    with ga w1 show ?thesis by (simp add: get_component_def)
  next
    case (Inr n)
    obtain p w2 where gi: "get_by_index W arr n (world s) = (p, w2)"
      by (cases "get_by_index W arr n (world s)")
    have "w2 = world s"
      using assms gi unfolding read_only_def by (metis snd_conv)
    with Inr ga w1 gi show ?thesis by (simp add: get_component_def)
  qed
qed

lemma pack_expansion_Cons_Inr:
  assumes "fst (pack_expansion W oob i (C # Cs) j s) = Inr fs"
  obtains f fs' where "fs = f # fs'"
    and "fst (get_component W oob i C j s) = Inr f"
    and "fst (pack_expansion W oob i Cs (Suc j) (snd (get_component W oob i C j s))) = Inr fs'"
proof -
  obtain r s1 where gc: "get_component W oob i C j s = (r, s1)"
    by (cases "get_component W oob i C j s")
  obtain f where r: "r = Inr f"
    using assms gc by (cases r) auto
  obtain r' s2 where pe: "pack_expansion W oob i Cs (Suc j) s1 = (r', s2)"
    by (cases "pack_expansion W oob i Cs (Suc j) s1")
  obtain fs' where r': "r' = Inr fs'" and fs: "fs = f # fs'"
    using assms gc r pe by (cases r') auto
  show ?thesis
    using that [of f fs'] fs gc r pe r' by simp
qed

lemma pack_expansion_read_only:
  assumes "read_only W"
  shows "snd (pack_expansion W oob i Cs j s) = s"
proof (induction Cs arbitrary: j)
  case Nil
  show ?case by simp
next
  case (Cons C Cs)
  show ?case
    using get_component_read_only [OF assms, of oob i C j s] Cons.IH [of "Suc j"]
    by (auto split: prod.splits sum.splits)
qed

lemma operator_index_read_only:
  assumes "read_only W"
  shows "snd (operator_index W oob COMPS i s) = s"
proof (cases "FirstComponentType COMPS")
  case None
  then show ?thesis by (simp add: operator_index_def)
next
  case (Some k0)
  show ?thesis
  proof (cases "subscript oob (ind s) 0 i")
    case (Inl e)
    with Some show ?thesis by (simp add: operator_index_def)
  next
    case (Inr n)
    have "snd (comp_get_entity W k0 n (world s)) = world s"
      using assms unfolding read_only_def by blast
    then show ?thesis
      by (simp add: operator_index_unfold [OF Some Inr] pack_expansion_read_only [OF assms])
  qed
qed

lemma get_component_value:
  assumes "read_only W" and "j < length (ind s)" and "i < length (ind s ! j)"
  shows "fst (get_component W oob i C j s) =
         MaybeDeref (is_pointer_v C) (stored_handle W (StripConstPtr C) (ind s ! j ! i) (world s))"
proof -
  obtain arr w1 where ga: "get_array W (StripConstPtr C) (world s) = (arr, w1)"
    by (cases "get_array W (StripConstPtr C) (world s)")
  have w1: "w1 = world s"
    using assms(1) ga unfolding read_only_def by (metis snd_conv)
  show ?thesis
    using assms(2,3) ga w1
    by (simp add: get_component_def subscript_def stored_handle_def split: prod.splits)
qed

lemma pack_expansion_length:
  "fst (pack_expansion W oob i Cs j s) = Inr fs \<Longrightarrow> length fs = length Cs"
proof (induction Cs arbitrary: j s fs)
  case Nil
  then show ?case by simp
next
  case (Cons C Cs)
  from Cons.prems obtain f fs' where "fs = f # fs'"
    and "fst (pack_expansion W oob i Cs (Suc j) (snd (get_component W oob i C j s))) = Inr fs'"
    by (rule pack_expansion_Cons_Inr)
  then show ?case using Cons.IH by simp
qed

lemma pack_expansion_nth:
  assumes "read_only W"
  shows "fst (pack_expansion W oob i Cs j s) = Inr fs \<Longrightarrow> k < length Cs \<Longrightarrow>
         fst (get_component W oob i (Cs ! k) (j + k) s) = Inr (fs ! k)"
proof (induction Cs arbitrary: j fs k)
  case Nil
  then show ?case by simp
next
  case (Cons C Cs)
  from Cons.prems(1) obtain f fs' where fs: "fs = f # fs'"
    and gc: "fst (get_component W oob i C j s) = Inr f"
    and pe: "fst (pack_expansion W oob i Cs (Suc j) (snd (get_component W oob i C j s))) = Inr fs'"
    by (rule pack_expansion_Cons_Inr)
  have pe': "fst (pack_expansion W oob i Cs (Suc j) s) = Inr fs'"
    using pe get_component_read_only [OF assms, of oob i C j s] by simp
  show ?case
  proof (cases k)
    case 0
    with gc fs show ?thesis by simp
  next
    case (Suc k')
    have "fst (get_component W oob i (Cs ! k') (Suc j + k') s) = Inr (fs' ! k')"
      using Cons.IH [OF pe', of k'] Cons.prems(2) Suc by simp
    with Suc fs show ?thesis by simp
  qed
qed

lemma get_component_shape:
  assumes "fst (get_component W oob i C j s) = Inr f"
  shows "is_Ptr f = is_pointer_v C"
proof -
  obtain arr w1 where ga: "get_array W (StripConstPtr C) (world s) = (arr, w1)"
    by (cases "get_array W (StripConstPtr C) (world s)")
  obtain n where sb: "subscript oob (ind s) j i = Inr n"
    using assms ga by (cases "subscript oob (ind s) j i") (auto simp: get_component_def)
  obtain p w2 where gi: "get_by_index W arr n w1 = (p, w2)"
    by (cases "get_by_index W arr n w1")
  have md: "MaybeDeref (is_pointer_v C) p = Inr f"
    using assms ga sb gi by (simp add: get_component_def)
  show ?thesis
  proof (cases "is_pointer_v C")
    case True
    with md show ?thesis by auto
  next
    case False
    with md show ?thesis by (cases p) auto
  qed
qed

lemma pack_expansion_shape:
  "fst (pack_expansion W oob i Cs j s) = Inr fs \<Longrightarrow> map is_Ptr fs = map is_pointer_v Cs"
proof (induction Cs arbitrary: j s fs)
  case Nil
  then show ?case by simp
next
  case (Cons C Cs)
  from Cons.prems obtain f fs' where fs: "fs = f # fs'"
    and gc: "fst (get_component W oob i C j s) = Inr f"
    and pe: "fst (pack_expansion W oob i Cs (Suc j) (snd (get_component W oob i C j s))) = Inr fs'"
    by (rule pack_expansion_Cons_Inr)
  show ?case
    using fs get_component_shape [OF gc] Cons.IH [OF pe] by simp
qed

subsection \<open>Valid positions and successful accesses\<close>

lemma subscript_first:
  "i < size_view s \<Longrightarrow> subscript oob (ind s) 0 i = Inr (ind s ! 0 ! i)"
  by (cases "ind s") (simp_all add: subscript_def)

lemma subscript_beyond:
  "size_view s \<le> i \<Longrightarrow> subscript oob (ind s) 0 i = oob (ind s) 0 i"
  by (cases "ind s") (simp_all add: subscript_def)

lemma well_formed_in_range:
  assumes "well_formed COMPS s" and "i < size_view s" and "j < length COMPS"
  shows "j < length (ind s) \<and> i < length (ind s ! j)"
proof -
  have len: "j < length (ind s)"
    using assms(1,3) by (simp add: well_formed_def)
  have "\<forall>xs \<in> set (ind s). length xs = size_view s"
    using assms(1) by (simp add: well_formed_def list_all_iff)
  then have "length (ind s ! j) = size_view s"
    using len nth_mem by blast
  with len assms(2) show ?thesis by simp
qed

lemma well_formed_first:
  assumes "well_formed COMPS s" and "i < size_view s"
  obtains C Cs where "COMPS = C # Cs"
proof -
  have "ind s \<noteq> []" using assms(2) by (cases "ind s") simp_all
  then have "COMPS \<noteq> []" using assms(1) by (auto simp: well_formed_def)
  then show ?thesis using that by (cases COMPS) simp_all
qed

lemma MaybeDeref_handle: "MaybeDeref b p = Inr f \<Longrightarrow> handle_of f = p"
  by (cases b; cases p) auto

lemma operator_index_Inr:
  assumes "FirstComponentType COMPS = Some k0" and "i < size_view s"
    and "fst (operator_index W oob COMPS i s) = Inr cs"
  shows "entity cs = fst (comp_get_entity W k0 (ind s ! 0 ! i) (world s)) \<and>
         fst (pack_expansion W oob i COMPS 0
                (s\<lparr>world := snd (comp_get_entity W k0 (ind s ! 0 ! i) (world s))\<rparr>)) =
           Inr (components cs)"
proof -
  let ?pe = "pack_expansion W oob i COMPS 0
               (s\<lparr>world := snd (comp_get_entity W k0 (ind s ! 0 ! i) (world s))\<rparr>)"
  have eq: "fst (operator_index W oob COMPS i s) =
            map_sum (\<lambda>e. e)
              (\<lambda>fs. \<lparr>entity = fst (comp_get_entity W k0 (ind s ! 0 ! i) (world s)), components = fs\<rparr>)
              (fst ?pe)"
    by (simp add: operator_index_unfold [OF assms(1) subscript_first [OF assms(2)]])
  show ?thesis
    using assms(3) unfolding eq by (cases "fst ?pe") auto
qed

lemma operator_index_Inr_read_only:
  assumes "read_only W" and "FirstComponentType COMPS = Some k0" and "i < size_view s"
    and "fst (operator_index W oob COMPS i s) = Inr cs"
  shows "fst (pack_expansion W oob i COMPS 0 s) = Inr (components cs)"
proof -
  have "snd (comp_get_entity W k0 (ind s ! 0 ! i) (world s)) = world s"
    using assms(1) unfolding read_only_def by blast
  then show ?thesis
    using operator_index_Inr [OF assms(2,3,4)] by simp
qed

subsection \<open>The behaviour out of range does not matter in range\<close>

lemma pack_expansion_Cons_fst:
  "fst (pack_expansion W oob i (C # Cs) j s) =
     (case fst (get_component W oob i C j s) of
        Inl e \<Rightarrow> Inl e
      | Inr f \<Rightarrow> map_sum (\<lambda>e. e) (\<lambda>fs. f # fs)
                 (fst (pack_expansion W oob i Cs (Suc j) (snd (get_component W oob i C j s)))))"
  by (simp split: prod.splits sum.splits)

lemma pack_expansion_Cons_snd:
  "snd (pack_expansion W oob i (C # Cs) j s) =
     (case fst (get_component W oob i C j s) of
        Inl e \<Rightarrow> snd (get_component W oob i C j s)
      | Inr f \<Rightarrow> snd (pack_expansion W oob i Cs (Suc j) (snd (get_component W oob i C j s))))"
  by (simp split: prod.splits sum.splits)

lemma get_component_oob_irrelevant:
  assumes "j < length (ind s)" and "i < length (ind s ! j)"
  shows "get_component W oob i C j s = get_component W oob' i C j s"
  using assms by (simp add: get_component_def subscript_def)

lemma pack_expansion_oob_irrelevant:
  assumes "read_only W"
    and "\<forall>k < length Cs. j + k < length (ind s) \<and> i < length (ind s ! (j + k))"
  shows "fst (pack_expansion W oob i Cs j s) = fst (pack_expansion W oob' i Cs j s)"
  using assms(2)
proof (induction Cs arbitrary: j)
  case Nil
  show ?case by simp
next
  case (Cons C Cs)
  have here: "j < length (ind s) \<and> i < length (ind s ! j)"
    using Cons.prems by fastforce
  have gc: "get_component W oob i C j s = get_component W oob' i C j s"
    using here by (simp add: get_component_oob_irrelevant)
  have st: "snd (get_component W oob' i C j s) = s"
    by (rule get_component_read_only [OF assms(1)])
  have rest: "\<forall>k < length Cs. Suc j + k < length (ind s) \<and> i < length (ind s ! (Suc j + k))"
  proof (intro allI impI)
    fix k assume "k < length Cs"
    then have "Suc k < length (C # Cs)" by simp
    then show "Suc j + k < length (ind s) \<and> i < length (ind s ! (Suc j + k))"
      using Cons.prems by fastforce
  qed
  have ih: "fst (pack_expansion W oob i Cs (Suc j) s) = fst (pack_expansion W oob' i Cs (Suc j) s)"
    by (rule Cons.IH [OF rest])
  show ?case
    unfolding pack_expansion_Cons_fst gc st ih ..
qed

lemma operator_index_oob_irrelevant:
  assumes "read_only W" and "well_formed COMPS s" and "i < size_view s"
  shows "fst (operator_index W oob COMPS i s) = fst (operator_index W oob' COMPS i s)"
proof -
  obtain C Cs where COMPS: "COMPS = C # Cs"
    using assms(2,3) by (rule well_formed_first)
  then have first: "FirstComponentType COMPS = Some (StripConstPtr C)" by simp
  have ro: "snd (comp_get_entity W (StripConstPtr C) (ind s ! 0 ! i) (world s)) = world s"
    using assms(1) unfolding read_only_def by blast
  have rng: "\<forall>k < length COMPS. 0 + k < length (ind s) \<and> i < length (ind s ! (0 + k))"
    using well_formed_in_range [OF assms(2,3)] by simp
  show ?thesis
    using pack_expansion_oob_irrelevant [OF assms(1) rng, of oob oob'] ro
    by (simp add: operator_index_unfold [OF first subscript_first [OF assms(3)]])
qed

subsection \<open>Where each field comes from\<close>

lemma pack_expansion_handles:
  assumes "read_only W"
    and "\<forall>k < length Cs. j + k < length (ind s) \<and> i < length (ind s ! (j + k))"
    and "fst (pack_expansion W oob i Cs j s) = Inr fs"
    and "k < length Cs"
  shows "MaybeDeref (is_pointer_v (Cs ! k))
           (stored_handle W (StripConstPtr (Cs ! k)) (ind s ! (j + k) ! i) (world s)) = Inr (fs ! k)"
proof -
  have rng: "j + k < length (ind s)" "i < length (ind s ! (j + k))"
    using assms(2,4) by simp_all
  show ?thesis
    using pack_expansion_nth [OF assms(1,3,4)] get_component_value [OF assms(1) rng, of oob "Cs ! k"]
    by simp
qed

lemma operator_index_field:
  assumes "read_only W" and "well_formed COMPS s" and "i < size_view s"
    and "fst (operator_index W oob COMPS i s) = Inr cs" and "k < length COMPS"
  shows "MaybeDeref (is_pointer_v (COMPS ! k))
           (stored_handle W (StripConstPtr (COMPS ! k)) (ind s ! k ! i) (world s)) =
         Inr (components cs ! k)"
proof -
  obtain C Cs where COMPS: "COMPS = C # Cs"
    using assms(2,3) by (rule well_formed_first)
  then have first: "FirstComponentType COMPS = Some (StripConstPtr C)" by simp
  have pe: "fst (pack_expansion W oob i COMPS 0 s) = Inr (components cs)"
    by (rule operator_index_Inr_read_only [OF assms(1) first assms(3,4)])
  have rng: "\<forall>k < length COMPS. 0 + k < length (ind s) \<and> i < length (ind s ! (0 + k))"
    using well_formed_in_range [OF assms(2,3)] by simp
  show ?thesis
    using pack_expansion_handles [OF assms(1) rng pe assms(5)] by simp
qed

lemma MaybeDeref_succeeds: "b \<or> p \<noteq> None \<Longrightarrow> \<exists>f. MaybeDeref b p = Inr f"
  by (cases b; cases p) auto

lemma pack_expansion_succeeds:
  assumes "read_only W"
    and "\<forall>k < length Cs. j + k < length (ind s) \<and> i < length (ind s ! (j + k))"
    and "\<forall>k < length Cs. is_pointer_v (Cs ! k) \<or>
           stored_handle W (StripConstPtr (Cs ! k)) (ind s ! (j + k) ! i) (world s) \<noteq> None"
  shows "\<exists>fs. fst (pack_expansion W oob i Cs j s) = Inr fs"
  using assms(2,3)
proof (induction Cs arbitrary: j)
  case Nil
  show ?case by simp
next
  case (Cons C Cs)
  have here: "j < length (ind s)" "i < length (ind s ! j)"
    using Cons.prems(1) by fastforce+
  have "is_pointer_v C \<or> stored_handle W (StripConstPtr C) (ind s ! j ! i) (world s) \<noteq> None"
    using Cons.prems(2) by fastforce
  then obtain f where f: "fst (get_component W oob i C j s) = Inr f"
    using MaybeDeref_succeeds get_component_value [OF assms(1) here, of oob C] by metis
  have st: "snd (get_component W oob i C j s) = s"
    by (rule get_component_read_only [OF assms(1)])
  have r1: "\<forall>k < length Cs. Suc j + k < length (ind s) \<and> i < length (ind s ! (Suc j + k))"
  proof (intro allI impI)
    fix k assume "k < length Cs"
    then have "Suc k < length (C # Cs)" by simp
    then show "Suc j + k < length (ind s) \<and> i < length (ind s ! (Suc j + k))"
      using Cons.prems(1) by fastforce
  qed
  have r2: "\<forall>k < length Cs. is_pointer_v (Cs ! k) \<or>
           stored_handle W (StripConstPtr (Cs ! k)) (ind s ! (Suc j + k) ! i) (world s) \<noteq> None"
  proof (intro allI impI)
    fix k assume "k < length Cs"
    then have "Suc k < length (C # Cs)" by simp
    then show "is_pointer_v (Cs ! k) \<or>
           stored_handle W (StripConstPtr (Cs ! k)) (ind s ! (Suc j + k) ! i) (world s) \<noteq> None"
      using Cons.prems(2) by fastforce
  qed
  obtain fs where "fst (pack_expansion W oob i Cs (Suc j) s) = Inr fs"
    using Cons.IH [OF r1 r2] by blast
  then show ?case
    by (simp add: pack_expansion_Cons_fst f st del: pack_expansion.simps)
qed

subsection \<open>Requests that differ in qualifiers only\<close>

lemma get_component_unfold:
  assumes "subscript oob (ind s) j i = Inr n"
  shows "get_component W oob i C j s =
     (MaybeDeref (is_pointer_v C)
        (fst (get_by_index W (fst (get_array W (StripConstPtr C) (world s))) n
                (snd (get_array W (StripConstPtr C) (world s))))),
      s\<lparr>world := snd (get_by_index W (fst (get_array W (StripConstPtr C) (world s))) n
                       (snd (get_array W (StripConstPtr C) (world s))))\<rparr>)"
  using assms by (simp add: get_component_def split: prod.splits)

lemma get_component_Inr_subscript:
  assumes "fst (get_component W oob i C j s) = Inr f"
  obtains n where "subscript oob (ind s) j i = Inr n"
  using assms
  by (cases "subscript oob (ind s) j i") (auto simp: get_component_def split: prod.splits)

lemma get_component_strip:
  assumes "StripConstPtr C = StripConstPtr C'"
    and "fst (get_component W oob i C j s) = Inr f"
    and "fst (get_component W oob i C' j s) = Inr f'"
  shows "handle_of f' = handle_of f \<and>
         snd (get_component W oob i C' j s) = snd (get_component W oob i C j s)"
proof -
  obtain n where n: "subscript oob (ind s) j i = Inr n"
    using assms(2) by (rule get_component_Inr_subscript)
  have "handle_of f = fst (get_by_index W (fst (get_array W (StripConstPtr C) (world s))) n
                (snd (get_array W (StripConstPtr C) (world s))))"
    using assms(2) unfolding get_component_unfold [OF n] by (simp add: MaybeDeref_handle)
  moreover have "handle_of f' = fst (get_by_index W (fst (get_array W (StripConstPtr C') (world s))) n
                (snd (get_array W (StripConstPtr C') (world s))))"
    using assms(3) unfolding get_component_unfold [OF n] by (simp add: MaybeDeref_handle)
  ultimately show ?thesis
    using assms(1) by (simp add: get_component_unfold [OF n])
qed

lemma pack_expansion_strip:
  assumes "map StripConstPtr Cs = map StripConstPtr Cs'"
    and "fst (pack_expansion W oob i Cs j s) = Inr fs"
    and "fst (pack_expansion W oob i Cs' j s) = Inr fs'"
  shows "map handle_of fs' = map handle_of fs \<and>
         snd (pack_expansion W oob i Cs' j s) = snd (pack_expansion W oob i Cs j s)"
  using assms
proof (induction Cs arbitrary: Cs' j s fs fs')
  case Nil
  then show ?case by simp
next
  case (Cons C Cs)
  from Cons.prems(1) obtain C' Cs'' where Cs': "Cs' = C' # Cs''"
    and C: "StripConstPtr C = StripConstPtr C'"
    and rest: "map StripConstPtr Cs = map StripConstPtr Cs''"
    by (cases Cs') auto
  from Cons.prems(2) obtain f gs where fs: "fs = f # gs"
    and gc: "fst (get_component W oob i C j s) = Inr f"
    and pe: "fst (pack_expansion W oob i Cs (Suc j) (snd (get_component W oob i C j s))) = Inr gs"
    by (rule pack_expansion_Cons_Inr)
  from Cons.prems(3) obtain f' gs' where fs': "fs' = f' # gs'"
    and gc': "fst (get_component W oob i C' j s) = Inr f'"
    and pe': "fst (pack_expansion W oob i Cs'' (Suc j) (snd (get_component W oob i C' j s))) = Inr gs'"
    unfolding Cs' by (rule pack_expansion_Cons_Inr)
  have one: "handle_of f' = handle_of f"
    and st: "snd (get_component W oob i C' j s) = snd (get_component W oob i C j s)"
    using get_component_strip [OF C gc gc'] by simp_all
  have ih: "map handle_of gs' = map handle_of gs \<and>
        snd (pack_expansion W oob i Cs'' (Suc j) (snd (get_component W oob i C j s))) =
        snd (pack_expansion W oob i Cs (Suc j) (snd (get_component W oob i C j s)))"
    using Cons.IH [OF rest pe] pe' st by simp
  show ?case
    using one ih fs fs' gc gc' st
    by (simp add: Cs' pack_expansion_Cons_snd del: pack_expansion.simps)
qed

subsection \<open>The calls of a successful access\<close>

lemma traced_get_component:
  assumes "read_only W" and "j < length xs" and "i < length (xs ! j)"
  shows "get_component (traced W) oob i C j \<lparr>world = (w, t), ind = xs\<rparr> =
     (fst (get_component W oob i C j \<lparr>world = w, ind = xs\<rparr>),
      \<lparr>world = (w, t @ [Array (StripConstPtr C),
                         Fetch (fst (get_array W (StripConstPtr C) w)) (xs ! j ! i)]),
       ind = xs\<rparr>)"
proof -
  have r1: "snd (get_array W k v) = v" for k v
    using assms(1) unfolding read_only_def by blast
  have r2: "snd (get_by_index W a n v) = v" for a n v
    using assms(1) unfolding read_only_def by blast
  have sb: "subscript oob xs j i = Inr (xs ! j ! i)"
    using assms(2,3) by (simp add: subscript_def)
  have plain: "fst (get_component W oob i C j \<lparr>world = w, ind = xs\<rparr>) =
     MaybeDeref (is_pointer_v C)
       (fst (get_by_index W (fst (get_array W (StripConstPtr C) w)) (xs ! j ! i) w))"
    using sb by (simp add: get_component_unfold r1)
  show ?thesis
    unfolding plain using sb
    by (simp add: get_component_unfold traced_def r1 r2)
qed

lemma traced_pack_expansion:
  assumes "read_only W"
  shows "\<forall>k < length Cs. j + k < length xs \<and> i < length (xs ! (j + k)) \<Longrightarrow>
     fst (pack_expansion W oob i Cs j \<lparr>world = w, ind = xs\<rparr>) = Inr fs \<Longrightarrow>
     pack_expansion (traced W) oob i Cs j \<lparr>world = (w, t), ind = xs\<rparr> =
       (Inr fs,
        \<lparr>world = (w, t @ concat (map (\<lambda>k. [Array (StripConstPtr (Cs ! k)),
                                           Fetch (fst (get_array W (StripConstPtr (Cs ! k)) w))
                                                 (xs ! (j + k) ! i)])
                                  [0..<length Cs])),
         ind = xs\<rparr>)"
proof (induction Cs arbitrary: j t fs)
  case Nil
  then show ?case by simp
next
  case (Cons C Cs)
  let ?s = "\<lparr>world = w, ind = xs\<rparr>"
  have here: "j < length xs" "i < length (xs ! j)"
    using Cons.prems(1) by fastforce+
  have st: "snd (get_component W oob i C j ?s) = ?s"
    by (rule get_component_read_only [OF assms])
  from Cons.prems(2) obtain f gs where fs: "fs = f # gs"
    and gc: "fst (get_component W oob i C j ?s) = Inr f"
    and pe: "fst (pack_expansion W oob i Cs (Suc j) ?s) = Inr gs"
    using st by (metis pack_expansion_Cons_Inr)
  have r1: "\<forall>k < length Cs. Suc j + k < length xs \<and> i < length (xs ! (Suc j + k))"
  proof (intro allI impI)
    fix k assume "k < length Cs"
    then have "Suc k < length (C # Cs)" by simp
    then show "Suc j + k < length xs \<and> i < length (xs ! (Suc j + k))"
      using Cons.prems(1) by fastforce
  qed
  let ?t1 = "t @ [Array (StripConstPtr C), Fetch (fst (get_array W (StripConstPtr C) w)) (xs ! j ! i)]"
  have tg: "get_component (traced W) oob i C j \<lparr>world = (w, t), ind = xs\<rparr> =
            (Inr f, \<lparr>world = (w, ?t1), ind = xs\<rparr>)"
    using traced_get_component [OF assms here, of oob C w t] gc by simp
  have ih: "pack_expansion (traced W) oob i Cs (Suc j) \<lparr>world = (w, ?t1), ind = xs\<rparr> =
       (Inr gs,
        \<lparr>world = (w, ?t1 @ concat (map (\<lambda>k. [Array (StripConstPtr (Cs ! k)),
                                           Fetch (fst (get_array W (StripConstPtr (Cs ! k)) w))
                                                 (xs ! (Suc j + k) ! i)])
                                  [0..<length Cs])),
         ind = xs\<rparr>)"
    by (rule Cons.IH [OF r1 pe])
  show ?case
    using tg ih fs by (simp add: map_upt_Suc del: upt_Suc)
qed

lemma operator_index_pack:
  assumes "fst (operator_index W oob COMPS i s) = Inr cs"
  obtains s' where "fst (pack_expansion W oob i COMPS 0 s') = Inr (components cs)"
proof (cases "FirstComponentType COMPS")
  case None
  with assms show ?thesis by (simp add: operator_index_def)
next
  case (Some k0)
  show ?thesis
  proof (cases "subscript oob (ind s) 0 i")
    case (Inl e)
    with Some assms show ?thesis by (simp add: operator_index_def)
  next
    case (Inr n)
    let ?pe = "pack_expansion W oob i COMPS 0 (s\<lparr>world := snd (comp_get_entity W k0 n (world s))\<rparr>)"
    have "fst ?pe = Inr (components cs)"
      using assms unfolding operator_index_unfold [OF Some Inr]
      by (cases "fst ?pe") auto
    then show ?thesis by (rule that)
  qed
qed

lemma operator_index_length:
  assumes "fst (operator_index W oob COMPS i s) = Inr cs"
  shows "length (components cs) = length COMPS"
proof -
  obtain s' where "fst (pack_expansion W oob i COMPS 0 s') = Inr (components cs)"
    using assms by (rule operator_index_pack)
  then show ?thesis by (rule pack_expansion_length)
qed

subsection \<open>Accesses that return, and what they return\<close>

lemma operator_index_succeeds:
  assumes "read_only W" and "well_formed COMPS s" and "i < size_view s"
    and "array_contract W COMPS i s"
  obtains cs where "fst (operator_index W oob COMPS i s) = Inr cs"
proof -
  obtain C Cs where COMPS: "COMPS = C # Cs"
    using assms(2,3) by (rule well_formed_first)
  then have first: "FirstComponentType COMPS = Some (StripConstPtr C)" by simp
  have ro: "snd (comp_get_entity W (StripConstPtr C) (ind s ! 0 ! i) (world s)) = world s"
    using assms(1) unfolding read_only_def by blast
  have rng: "\<forall>k < length COMPS. 0 + k < length (ind s) \<and> i < length (ind s ! (0 + k))"
    using well_formed_in_range [OF assms(2,3)] by simp
  have con: "\<forall>k < length COMPS. is_pointer_v (COMPS ! k) \<or>
           stored_handle W (StripConstPtr (COMPS ! k)) (ind s ! (0 + k) ! i) (world s) \<noteq> None"
    using assms(4) by (simp add: array_contract_def list_all_iff)
  obtain fs where fs: "fst (pack_expansion W oob i COMPS 0 s) = Inr fs"
    using pack_expansion_succeeds [OF assms(1) rng con] by blast
  have "fst (operator_index W oob COMPS i s) =
        Inr \<lparr>entity = fst (comp_get_entity W (StripConstPtr C) (ind s ! 0 ! i) (world s)),
             components = fs\<rparr>"
    using fs ro by (simp add: operator_index_unfold [OF first subscript_first [OF assms(3)]])
  then show ?thesis by (rule that)
qed

lemma operator_index_optional_field:
  assumes "read_only W" and "well_formed COMPS s" and "i < size_view s"
    and "fst (operator_index W oob COMPS i s) = Inr cs"
    and "k < length COMPS" and "is_pointer_v (COMPS ! k)"
  shows "components cs ! k =
         Ptr (stored_handle W (StripConstPtr (COMPS ! k)) (ind s ! k ! i) (world s))"
  using operator_index_field [OF assms(1,2,3,4,5)] assms(6) by simp

lemma operator_index_mandatory_field:
  assumes "read_only W" and "well_formed COMPS s" and "i < size_view s"
    and "fst (operator_index W oob COMPS i s) = Inr cs"
    and "k < length COMPS" and "\<not> is_pointer_v (COMPS ! k)"
  shows "\<exists>h. stored_handle W (StripConstPtr (COMPS ! k)) (ind s ! k ! i) (world s) = Some h \<and>
             components cs ! k = Ref h"
proof -
  have "MaybeDeref False
           (stored_handle W (StripConstPtr (COMPS ! k)) (ind s ! k ! i) (world s)) =
          Inr (components cs ! k)"
    using operator_index_field [OF assms(1,2,3,4,5)] assms(6) by simp
  then show ?thesis
    by (cases "stored_handle W (StripConstPtr (COMPS ! k)) (ind s ! k ! i) (world s)") auto
qed

lemma operator_index_shape:
  assumes "fst (operator_index W oob COMPS i s) = Inr cs"
  shows "map is_Ptr (components cs) = map is_pointer_v COMPS"
proof -
  obtain s' where "fst (pack_expansion W oob i COMPS 0 s') = Inr (components cs)"
    using assms by (rule operator_index_pack)
  then show ?thesis by (rule pack_expansion_shape)
qed

lemma calls_of_success:
  assumes "read_only W" and "well_formed COMPS s" and "i < size_view s"
    and "FirstComponentType COMPS = Some k0"
    and "fst (operator_index W oob COMPS i s) = Inr cs"
  shows "calls_of W oob COMPS i s =
           Resolve k0 (ind s ! 0 ! i) #
           concat (map (\<lambda>k. [Array (StripConstPtr (COMPS ! k)),
                              Fetch (fst (get_array W (StripConstPtr (COMPS ! k)) (world s)))
                                    (ind s ! k ! i)])
                     [0..<length COMPS])"
proof -
  have s: "\<lparr>world = world s, ind = ind s\<rparr> = s" by simp
  have pe: "fst (pack_expansion W oob i COMPS 0 \<lparr>world = world s, ind = ind s\<rparr>) =
            Inr (components cs)"
    using operator_index_Inr_read_only [OF assms(1,4,3,5)] by (simp only: s)
  have rng: "\<forall>k < length COMPS. 0 + k < length (ind s) \<and> i < length (ind s ! (0 + k))"
    using well_formed_in_range [OF assms(2,3)] by simp
  have ro: "snd (comp_get_entity W k0 (ind s ! 0 ! i) (world s)) = world s"
    using assms(1) unfolding read_only_def by blast
  have sb: "subscript oob (ind s) 0 i = Inr (ind s ! 0 ! i)"
    by (rule subscript_first [OF assms(3)])
  have "calls_of W oob COMPS i s =
           [Resolve k0 (ind s ! 0 ! i)] @
           concat (map (\<lambda>k. [Array (StripConstPtr (COMPS ! k)),
                              Fetch (fst (get_array W (StripConstPtr (COMPS ! k)) (world s)))
                                    (ind s ! (0 + k) ! i)])
                     [0..<length COMPS])"
    unfolding calls_of_def
    using traced_pack_expansion [OF assms(1) rng pe, of "[Resolve k0 (ind s ! 0 ! i)]"] sb ro
    by (simp add: operator_index_def assms(4) traced_def)
  then show ?thesis by simp
qed

lemma operator_index_requalified:
  assumes "map StripConstPtr COMPS = map StripConstPtr COMPS'"
    and "fst (operator_index W oob COMPS i s) = Inr cs"
    and "fst (operator_index W oob COMPS' i s) = Inr cs'"
  shows "entity cs' = entity cs \<and>
         map handle_of (components cs') = map handle_of (components cs) \<and>
         snd (operator_index W oob COMPS' i s) = snd (operator_index W oob COMPS i s)"
proof -
  obtain C Cs where COMPS: "COMPS = C # Cs"
    using assms(2) by (cases COMPS) (simp_all add: operator_index_def)
  obtain C' Cs' where COMPS': "COMPS' = C' # Cs'" and C: "StripConstPtr C = StripConstPtr C'"
    using assms(1) COMPS by (cases COMPS') auto
  have first: "FirstComponentType COMPS = Some (StripConstPtr C)"
    and first': "FirstComponentType COMPS' = Some (StripConstPtr C)"
    using COMPS COMPS' C by simp_all
  obtain n where n: "subscript oob (ind s) 0 i = Inr n"
    using assms(2) first
    by (cases "subscript oob (ind s) 0 i") (simp_all add: operator_index_def)
  let ?s1 = "s\<lparr>world := snd (comp_get_entity W (StripConstPtr C) n (world s))\<rparr>"
  have pe: "fst (pack_expansion W oob i COMPS 0 ?s1) = Inr (components cs)"
    and e: "entity cs = fst (comp_get_entity W (StripConstPtr C) n (world s))"
    using assms(2) unfolding operator_index_unfold [OF first n]
    by (cases "fst (pack_expansion W oob i COMPS 0 ?s1)"; auto)+
  have pe': "fst (pack_expansion W oob i COMPS' 0 ?s1) = Inr (components cs')"
    and e': "entity cs' = fst (comp_get_entity W (StripConstPtr C) n (world s))"
    using assms(3) unfolding operator_index_unfold [OF first' n]
    by (cases "fst (pack_expansion W oob i COMPS' 0 ?s1)"; auto)+
  show ?thesis
    using pack_expansion_strip [OF assms(1) pe pe'] e e'
    by (simp add: operator_index_unfold [OF first n] operator_index_unfold [OF first' n])
qed

lemma well_formed_requalified:
  assumes "well_formed COMPS s" and "map StripConstPtr COMPS' = map StripConstPtr COMPS"
  shows "well_formed COMPS' s"
proof -
  have "length COMPS' = length COMPS"
    using assms(2) by (rule map_eq_imp_length_eq)
  with assms(1) show ?thesis by (simp add: well_formed_def)
qed

subsection \<open>The concrete world, evaluated\<close>

lemma example_read_only: "read_only example_world"
  by (simp add: read_only_def example_world_def)

lemma example_eval0:
  "operator_index example_world oob example_comps 0 example_view =
     (Inr \<lparr>entity = 11, components = [Ref (Position, 2), Ptr (Some (Velocity, 7))]\<rparr>, example_view)"
  by (simp add: operator_index_def get_component_def subscript_def example_world_def
      example_view_def example_comps_def)

lemma example_eval1:
  "operator_index example_world oob example_comps 1 example_view =
     (Inr \<lparr>entity = 12, components = [Ref (Position, 5), Ptr None]\<rparr>, example_view)"
  by (simp add: operator_index_def get_component_def subscript_def example_world_def
      example_view_def example_comps_def)

lemma example_well_formed: "well_formed example_comps example_view"
  by (simp add: well_formed_def example_comps_def example_view_def)

lemma example_contract: "array_contract example_world example_comps 1 example_view"
  by (simp add: array_contract_def example_comps_def example_view_def example_world_def
      stored_handle_def)

lemma example_eval0_requalified:
  "operator_index example_world oob requalified_comps 0 example_view =
     (Inr \<lparr>entity = 11, components = [Ptr (Some (Position, 2)), Ref (Velocity, 7)]\<rparr>, example_view)"
  by (simp add: operator_index_def get_component_def subscript_def example_world_def
      example_view_def requalified_comps_def)

lemma example_contract0: "array_contract example_world example_comps 0 example_view"
  by (simp add: array_contract_def example_comps_def example_view_def example_world_def
      stored_handle_def)

lemma requalified_contract0: "array_contract example_world requalified_comps 0 example_view"
  by (simp add: array_contract_def requalified_comps_def example_view_def example_world_def
      stored_handle_def)

lemma example_handles:
  "stored_handle example_world Position 2 (world example_view) = Some (Position, 2)"
  "stored_handle example_world Position 5 (world example_view) = Some (Position, 5)"
  "stored_handle example_world Velocity 7 (world example_view) = Some (Velocity, 7)"
  "stored_handle example_world Velocity 9 (world example_view) = None"
  by (simp_all add: stored_handle_def example_world_def example_view_def)

lemma example_layout:
  "length example_comps = Suc (Suc 0)"
  "example_comps ! 0 = Bare Position" "example_comps ! Suc 0 = Pointer_to (Bare Velocity)"
  "ind example_view ! 0 ! 0 = 2" "ind example_view ! Suc 0 ! 0 = 7"
  "ind example_view ! 0 ! Suc 0 = 5" "ind example_view ! Suc 0 ! Suc 0 = 9"
  by (simp_all add: example_comps_def example_view_def)

section \<open>The claims\<close>

text \<open>
  C1. For every view and every valid position \<open>i\<close>, the entity identifier of the
  returned ComponentSet is what the World resolves the first requested kind's internal
  index at position \<open>i\<close> to: the identifier of \<open>view[i]\<close> is
  \<open>resolve_entity_id\<close> of the first kind, stripped, and \<open>ind_[0][i]\<close>, in the
  world as the access finds it.
\<close>

theorem entity_from_first_kind:
  assumes "FirstComponentType COMPS = Some k0" and "i < size_view s"
    and "fst (operator_index W oob COMPS i s) = Inr cs"
  shows "entity cs = resolve_entity_id W k0 (ind s ! 0 ! i) (world s)"
  using operator_index_Inr [OF assms] by (simp add: resolve_entity_id_def)

theorem entity_from_first_kind_witness:
  "FirstComponentType example_comps = Some Position \<and> 0 < size_view example_view \<and>
   fst (operator_index example_world range_checked example_comps 0 example_view) =
     Inr \<lparr>entity = 11, components = [Ref (Position, 2), Ptr (Some (Velocity, 7))]\<rparr> \<and>
   11 = resolve_entity_id example_world Position (ind example_view ! 0 ! 0) (world example_view)"
proof -
  have h1: "FirstComponentType example_comps = Some Position"
    by (simp add: example_comps_def)
  have h2: "0 < size_view example_view"
    by (simp add: example_view_def)
  have h3: "fst (operator_index example_world range_checked example_comps 0 example_view) =
     Inr \<lparr>entity = 11, components = [Ref (Position, 2), Ptr (Some (Velocity, 7))]\<rparr>"
    by (simp add: example_eval0)
  show ?thesis
    using h1 h2 h3 entity_from_first_kind [OF h1 h2 h3] by simp
qed

text \<open>
  C2, as amended. The operator has no range check of its own. For a position outside
  \<open>[0, size())\<close> the first thing evaluated is \<open>ind_[0][i]\<close>: when that subscript of the
  index storage fails, the operator fails with the same condition (IndexOutOfRange for a
  range-checked storage), before any collaborator is called, with the state untouched
  and no ComponentSet constructed.
\<close>

theorem out_of_range_fails_as_subscript:
  assumes "FirstComponentType COMPS = Some k0" and "size_view s \<le> i"
    and "oob (ind s) 0 i = Inl e"
  shows "operator_index W oob COMPS i s = (Inl e, s)"
  using assms by (simp add: operator_index_def subscript_beyond)

text \<open>
  C2 as stated does not hold of the operator alone: with an index storage whose
  subscript is not checked (here one that reads 0 beyond the end), the access at
  \<open>size()\<close> returns a complete ComponentSet, of an entity that is not in the view.
\<close>

theorem out_of_range_unchecked_counterexample:
  "size_view example_view \<le> 2 \<and>
   fst (operator_index example_world unchecked_zero example_comps 2 example_view) =
     Inr \<lparr>entity = 10, components = [Ref (Position, 0), Ptr None]\<rparr>"
  by (simp add: operator_index_def get_component_def subscript_def example_world_def
      example_view_def example_comps_def unchecked_zero_def)

theorem out_of_range_fails_as_subscript_witness:
  "FirstComponentType example_comps = Some Position \<and> size_view example_view \<le> 2 \<and>
   range_checked (ind example_view) 0 2 = Inl IndexOutOfRange \<and>
   operator_index example_world range_checked example_comps 2 example_view =
     (Inl IndexOutOfRange, example_view)"
proof -
  have h1: "FirstComponentType example_comps = Some Position"
    by (simp add: example_comps_def)
  have h2: "size_view example_view \<le> 2"
    by (simp add: example_view_def)
  have h3: "range_checked (ind example_view) 0 2 = Inl IndexOutOfRange"
    by (simp add: range_checked_def)
  show ?thesis
    using h1 h2 h3 out_of_range_fails_as_subscript [where oob = range_checked and W = example_world, OF h1 h2 h3] by simp
qed

text \<open>
  C3. The representation of a field is decided by the requested type, and the fetched
  handle is what the field holds. At a valid position of a well-formed view, under the
  array contract and with collaborators that only read, the access returns a
  ComponentSet with one field for each requested type: for a pointer type the field is
  the nullable pointer that the array reports at the stored index, kept as it is; for
  any other type the array reports a value there and the field is the reference to it.
  Moreover, for every world, state, position and behaviour of the index storage, a
  returned set has a pointer at \<open>k\<close> exactly when the \<open>k\<close>-th requested type is a pointer
  type: nothing met at run time takes part in the choice of representation.
\<close>

theorem optionality_from_declaration:
  assumes "read_only W" and "well_formed COMPS s" and "i < size_view s"
    and "array_contract W COMPS i s"
  shows "(\<exists>cs. fst (operator_index W oob COMPS i s) = Inr cs \<and>
            length (components cs) = length COMPS \<and>
            (\<forall>k < length COMPS.
               (is_pointer_v (COMPS ! k) \<longrightarrow>
                  components cs ! k =
                    Ptr (stored_handle W (StripConstPtr (COMPS ! k)) (ind s ! k ! i) (world s))) \<and>
               (\<not> is_pointer_v (COMPS ! k) \<longrightarrow>
                  (\<exists>h. stored_handle W (StripConstPtr (COMPS ! k)) (ind s ! k ! i) (world s) = Some h \<and>
                       components cs ! k = Ref h)))) \<and>
         (\<forall>cs'. fst (operator_index W' oob' COMPS i' s') = Inr cs' \<longrightarrow>
            map is_Ptr (components cs') = map is_pointer_v COMPS)"
proof -
  obtain cs where res: "fst (operator_index W oob COMPS i s) = Inr cs"
    using assms by (rule operator_index_succeeds)
  have len: "length (components cs) = length COMPS"
    using res by (rule operator_index_length)
  have opt: "components cs ! k =
               Ptr (stored_handle W (StripConstPtr (COMPS ! k)) (ind s ! k ! i) (world s))"
    if "k < length COMPS" and "is_pointer_v (COMPS ! k)" for k
    using operator_index_optional_field [OF assms(1,2,3) res that] .
  have man: "\<exists>h. stored_handle W (StripConstPtr (COMPS ! k)) (ind s ! k ! i) (world s) = Some h \<and>
                 components cs ! k = Ref h"
    if "k < length COMPS" and "\<not> is_pointer_v (COMPS ! k)" for k
    using operator_index_mandatory_field [OF assms(1,2,3) res that] .
  have shape: "map is_Ptr (components cs') = map is_pointer_v COMPS"
    if "fst (operator_index W' oob' COMPS i' s') = Inr cs'" for cs'
    using that by (rule operator_index_shape)
  show ?thesis
    using res len opt man shape by blast
qed

theorem optionality_from_declaration_witness:
  "read_only example_world \<and> well_formed example_comps example_view \<and>
   0 < size_view example_view \<and> array_contract example_world example_comps 0 example_view \<and>
   fst (operator_index example_world range_checked example_comps 0 example_view) =
     Inr \<lparr>entity = 11, components = [Ref (Position, 2), Ptr (Some (Velocity, 7))]\<rparr> \<and>
   (\<exists>cs. fst (operator_index example_world range_checked example_comps 0 example_view) = Inr cs \<and>
      length (components cs) = 2 \<and>
      components cs ! 0 = Ref (Position, 2) \<and>
      components cs ! 1 = Ptr (Some (Velocity, 7)))"
proof -
  have h3: "0 < size_view example_view"
    by (simp add: example_view_def)
  have run: "fst (operator_index example_world range_checked example_comps 0 example_view) =
     Inr \<lparr>entity = 11, components = [Ref (Position, 2), Ptr (Some (Velocity, 7))]\<rparr>"
    by (simp only: example_eval0 fst_conv)
  obtain cs where res: "fst (operator_index example_world range_checked example_comps 0 example_view) = Inr cs"
    and len: "length (components cs) = length example_comps"
    and fields: "\<forall>k < length example_comps.
               (is_pointer_v (example_comps ! k) \<longrightarrow>
                  components cs ! k =
                    Ptr (stored_handle example_world (StripConstPtr (example_comps ! k))
                           (ind example_view ! k ! 0) (world example_view))) \<and>
               (\<not> is_pointer_v (example_comps ! k) \<longrightarrow>
                  (\<exists>h. stored_handle example_world (StripConstPtr (example_comps ! k))
                           (ind example_view ! k ! 0) (world example_view) = Some h \<and>
                       components cs ! k = Ref h))"
    using optionality_from_declaration [OF example_read_only example_well_formed h3
        example_contract0, of range_checked]
    by blast
  have f0: "components cs ! 0 = Ref (Position, 2)"
    using fields [rule_format, of 0] by (simp add: example_layout example_handles)
  have f1: "components cs ! 1 = Ptr (Some (Velocity, 7))"
    using fields [rule_format, of "Suc 0"] by (simp add: example_layout example_handles)
  have l: "length (components cs) = 2"
    using len by (simp add: example_layout)
  show ?thesis
    using example_read_only example_well_formed h3 example_contract0 run res l f0 f1 by blast
qed

text \<open>
  C4. The array that backs a requested type is looked up under the stripped type, and the
  qualifiers decide the representation of the field only. For two instantiations whose
  requested types agree after stripping, at a valid position of a well-formed view,
  under the array contract of each and with collaborators that only read: both
  accesses return; the calls made are the resolution of the identifier for the stripped
  first type, then for each requested type the lookup of the array of its stripped type
  and one fetch from that array; both instantiations make the very same calls, so a kind
  requested as mandatory and the same kind requested as optional are served by the same
  array; both return the same identifier and the same handles; and each represents its
  fields by its own qualifiers.
\<close>

theorem storage_keyed_by_bare_kind:
  assumes "read_only W" and "well_formed COMPS s" and "i < size_view s"
    and "map StripConstPtr COMPS' = map StripConstPtr COMPS"
    and "array_contract W COMPS i s" and "array_contract W COMPS' i s"
  shows "\<exists>cs cs'. fst (operator_index W oob COMPS i s) = Inr cs \<and>
           fst (operator_index W oob COMPS' i s) = Inr cs' \<and>
           calls_of W oob COMPS i s =
             Resolve (StripConstPtr (COMPS ! 0)) (ind s ! 0 ! i) #
             concat (map (\<lambda>k. [Array (StripConstPtr (COMPS ! k)),
                                Fetch (fst (get_array W (StripConstPtr (COMPS ! k)) (world s)))
                                      (ind s ! k ! i)])
                       [0..<length COMPS]) \<and>
           calls_of W oob COMPS' i s = calls_of W oob COMPS i s \<and>
           entity cs' = entity cs \<and>
           map handle_of (components cs') = map handle_of (components cs) \<and>
           map is_Ptr (components cs) = map is_pointer_v COMPS \<and>
           map is_Ptr (components cs') = map is_pointer_v COMPS'"
proof -
  have wf': "well_formed COMPS' s"
    using assms(2,4) by (rule well_formed_requalified)
  obtain cs where res: "fst (operator_index W oob COMPS i s) = Inr cs"
    using assms(1,2,3,5) by (rule operator_index_succeeds)
  obtain cs' where res': "fst (operator_index W oob COMPS' i s) = Inr cs'"
    using assms(1) wf' assms(3,6) by (rule operator_index_succeeds)
  obtain C Cs where COMPS: "COMPS = C # Cs"
    using assms(2,3) by (rule well_formed_first)
  obtain C' Cs' where COMPS': "COMPS' = C' # Cs'"
    using wf' assms(3) by (rule well_formed_first)
  have first: "FirstComponentType COMPS = Some (StripConstPtr (COMPS ! 0))"
    using COMPS by simp
  have first': "FirstComponentType COMPS' = Some (StripConstPtr (COMPS' ! 0))"
    using COMPS' by simp
  have len: "length COMPS' = length COMPS"
    using assms(4) by (rule map_eq_imp_length_eq)
  have strip: "StripConstPtr (COMPS' ! k) = StripConstPtr (COMPS ! k)" if "k < length COMPS" for k
    using that len nth_map [of k COMPS' StripConstPtr] nth_map [of k COMPS StripConstPtr] assms(4)
    by simp
  have calls: "calls_of W oob COMPS i s =
             Resolve (StripConstPtr (COMPS ! 0)) (ind s ! 0 ! i) #
             concat (map (\<lambda>k. [Array (StripConstPtr (COMPS ! k)),
                                Fetch (fst (get_array W (StripConstPtr (COMPS ! k)) (world s)))
                                      (ind s ! k ! i)])
                       [0..<length COMPS])"
    by (rule calls_of_success [OF assms(1,2,3) first res])
  have calls': "calls_of W oob COMPS' i s =
             Resolve (StripConstPtr (COMPS' ! 0)) (ind s ! 0 ! i) #
             concat (map (\<lambda>k. [Array (StripConstPtr (COMPS' ! k)),
                                Fetch (fst (get_array W (StripConstPtr (COMPS' ! k)) (world s)))
                                      (ind s ! k ! i)])
                       [0..<length COMPS'])"
    by (rule calls_of_success [OF assms(1) wf' assms(3) first' res'])
  have same_map: "map (\<lambda>k. [Array (StripConstPtr (COMPS' ! k)),
                                Fetch (fst (get_array W (StripConstPtr (COMPS' ! k)) (world s)))
                                      (ind s ! k ! i)])
                       [0..<length COMPS'] =
                  map (\<lambda>k. [Array (StripConstPtr (COMPS ! k)),
                                Fetch (fst (get_array W (StripConstPtr (COMPS ! k)) (world s)))
                                      (ind s ! k ! i)])
                       [0..<length COMPS]"
    unfolding len by (rule map_cong) (simp_all add: strip)
  have "0 < length COMPS" using COMPS by simp
  then have first_same: "StripConstPtr (COMPS' ! 0) = StripConstPtr (COMPS ! 0)"
    by (rule strip)
  have same_calls: "calls_of W oob COMPS' i s = calls_of W oob COMPS i s"
    unfolding calls calls' same_map first_same ..
  have same: "entity cs' = entity cs \<and>
              map handle_of (components cs') = map handle_of (components cs)"
    using operator_index_requalified [OF assms(4) [symmetric] res res'] by simp
  have shape: "map is_Ptr (components cs) = map is_pointer_v COMPS"
    using res by (rule operator_index_shape)
  have shape': "map is_Ptr (components cs') = map is_pointer_v COMPS'"
    using res' by (rule operator_index_shape)
  show ?thesis
    using res res' calls same_calls same shape shape' by blast
qed

theorem storage_keyed_by_bare_kind_witness:
  "read_only example_world \<and> well_formed example_comps example_view \<and>
   0 < size_view example_view \<and>
   map StripConstPtr requalified_comps = map StripConstPtr example_comps \<and>
   array_contract example_world example_comps 0 example_view \<and>
   array_contract example_world requalified_comps 0 example_view \<and>
   fst (operator_index example_world range_checked example_comps 0 example_view) =
     Inr \<lparr>entity = 11, components = [Ref (Position, 2), Ptr (Some (Velocity, 7))]\<rparr> \<and>
   fst (operator_index example_world range_checked requalified_comps 0 example_view) =
     Inr \<lparr>entity = 11, components = [Ptr (Some (Position, 2)), Ref (Velocity, 7)]\<rparr> \<and>
   calls_of example_world range_checked example_comps 0 example_view =
     [Resolve Position 2, Array Position, Fetch Position 2, Array Velocity, Fetch Velocity 7] \<and>
   calls_of example_world range_checked requalified_comps 0 example_view =
     [Resolve Position 2, Array Position, Fetch Position 2, Array Velocity, Fetch Velocity 7]"
proof -
  have h3: "0 < size_view example_view"
    by (simp add: example_view_def)
  have h4: "map StripConstPtr requalified_comps = map StripConstPtr example_comps"
    by (simp add: example_comps_def requalified_comps_def)
  have run: "fst (operator_index example_world range_checked example_comps 0 example_view) =
     Inr \<lparr>entity = 11, components = [Ref (Position, 2), Ptr (Some (Velocity, 7))]\<rparr>"
    by (simp only: example_eval0 fst_conv)
  have run': "fst (operator_index example_world range_checked requalified_comps 0 example_view) =
     Inr \<lparr>entity = 11, components = [Ptr (Some (Position, 2)), Ref (Velocity, 7)]\<rparr>"
    by (simp only: example_eval0_requalified fst_conv)
  have arr: "get_array example_world = (\<lambda>k w. (k, w))"
    by (simp add: example_world_def)
  obtain cs cs' where
    calls: "calls_of example_world range_checked example_comps 0 example_view =
             Resolve (StripConstPtr (example_comps ! 0)) (ind example_view ! 0 ! 0) #
             concat (map (\<lambda>k. [Array (StripConstPtr (example_comps ! k)),
                                Fetch (fst (get_array example_world (StripConstPtr (example_comps ! k))
                                              (world example_view)))
                                      (ind example_view ! k ! 0)])
                       [0..<length example_comps])"
    and same: "calls_of example_world range_checked requalified_comps 0 example_view =
               calls_of example_world range_checked example_comps 0 example_view"
    using storage_keyed_by_bare_kind [OF example_read_only example_well_formed h3 h4
        example_contract0 requalified_contract0, of range_checked]
    by blast
  have c: "calls_of example_world range_checked example_comps 0 example_view =
     [Resolve Position 2, Array Position, Fetch Position 2, Array Velocity, Fetch Velocity 7]"
    unfolding calls by (simp add: example_layout arr)
  show ?thesis
    using example_read_only example_well_formed h3 h4 example_contract0 requalified_contract0
      run run' c same
    by simp
qed

text \<open>
  C5. Under the array contract (the array of every mandatory kind holds a value at the
  index the view stores for position \<open>i\<close>), with collaborators that only read and a
  well-formed view, the access at a valid position returns a ComponentSet: the
  conversion to a reference never meets a null handle. Every field of a mandatory kind
  is a reference, to the value its array holds at the stored index.
\<close>

theorem mandatory_presence:
  assumes "read_only W" and "well_formed COMPS s" and "i < size_view s"
    and "array_contract W COMPS i s"
  shows "\<exists>cs. fst (operator_index W oob COMPS i s) = Inr cs \<and>
           (\<forall>k < length COMPS. \<not> is_pointer_v (COMPS ! k) \<longrightarrow>
              (\<exists>h. components cs ! k = Ref h \<and>
                   stored_handle W (StripConstPtr (COMPS ! k)) (ind s ! k ! i) (world s) = Some h))"
proof -
  obtain C Cs where COMPS: "COMPS = C # Cs"
    using assms(2,3) by (rule well_formed_first)
  then have first: "FirstComponentType COMPS = Some (StripConstPtr C)" by simp
  have ro: "snd (comp_get_entity W (StripConstPtr C) (ind s ! 0 ! i) (world s)) = world s"
    using assms(1) unfolding read_only_def by blast
  have rng: "\<forall>k < length COMPS. 0 + k < length (ind s) \<and> i < length (ind s ! (0 + k))"
    using well_formed_in_range [OF assms(2,3)] by simp
  have con: "\<forall>k < length COMPS. is_pointer_v (COMPS ! k) \<or>
           stored_handle W (StripConstPtr (COMPS ! k)) (ind s ! (0 + k) ! i) (world s) \<noteq> None"
    using assms(4) by (simp add: array_contract_def list_all_iff)
  obtain fs where fs: "fst (pack_expansion W oob i COMPS 0 s) = Inr fs"
    using pack_expansion_succeeds [OF assms(1) rng con] by blast
  define cs where "cs = \<lparr>entity = fst (comp_get_entity W (StripConstPtr C) (ind s ! 0 ! i) (world s)),
                         components = fs\<rparr>"
  have res: "fst (operator_index W oob COMPS i s) = Inr cs"
    using fs ro by (simp add: operator_index_unfold [OF first subscript_first [OF assms(3)]] cs_def)
  have "\<exists>h. components cs ! k = Ref h \<and>
             stored_handle W (StripConstPtr (COMPS ! k)) (ind s ! k ! i) (world s) = Some h"
    if k: "k < length COMPS" and m: "\<not> is_pointer_v (COMPS ! k)" for k
  proof -
    have "MaybeDeref False
           (stored_handle W (StripConstPtr (COMPS ! k)) (ind s ! k ! i) (world s)) =
          Inr (components cs ! k)"
      using operator_index_field [OF assms(1,2,3) res k] m by simp
    then show ?thesis
      by (cases "stored_handle W (StripConstPtr (COMPS ! k)) (ind s ! k ! i) (world s)") auto
  qed
  with res show ?thesis by blast
qed

theorem mandatory_presence_witness:
  "read_only example_world \<and> well_formed example_comps example_view \<and>
   1 < size_view example_view \<and>
   (\<exists>cs h. fst (operator_index example_world range_checked example_comps 1 example_view) = Inr cs \<and>
      components cs ! 0 = Ref h \<and>
      stored_handle example_world Position 5 (world example_view) = Some h)"
proof -
  have h3: "1 < size_view example_view"
    by (simp add: example_view_def)
  obtain cs where res: "fst (operator_index example_world range_checked example_comps 1 example_view) = Inr cs"
    and fields: "\<forall>k < length example_comps. \<not> is_pointer_v (example_comps ! k) \<longrightarrow>
         (\<exists>h. components cs ! k = Ref h \<and>
              stored_handle example_world (StripConstPtr (example_comps ! k))
                (ind example_view ! k ! 1) (world example_view) = Some h)"
    using mandatory_presence [OF example_read_only example_well_formed h3 example_contract,
        of range_checked]
    by blast
  have k: "0 < length example_comps" "\<not> is_pointer_v (example_comps ! 0)"
    "StripConstPtr (example_comps ! 0) = Position" "ind example_view ! 0 ! 1 = 5"
    by (simp_all add: example_comps_def example_view_def)
  obtain h where "components cs ! 0 = Ref h"
    and "stored_handle example_world Position 5 (world example_view) = Some h"
    using fields k by metis
  with res example_read_only example_well_formed h3 show ?thesis by blast
qed

text \<open>
  C6. At a valid position, the field of an optional kind is the very handle that the
  kind's array reports at the stored index \<open>ind_[k][i]\<close>: absent when the array reports
  absence, the stored value when it reports presence, never anything else. The access
  returns a ComponentSet whenever the array contract of the mandatory kinds holds, and
  every set it returns has this field.
\<close>

theorem optional_fidelity:
  assumes "read_only W" and "well_formed COMPS s" and "i < size_view s"
    and "k < length COMPS" and "is_pointer_v (COMPS ! k)"
  shows "(array_contract W COMPS i s \<longrightarrow> (\<exists>cs. fst (operator_index W oob COMPS i s) = Inr cs)) \<and>
         (\<forall>cs. fst (operator_index W oob COMPS i s) = Inr cs \<longrightarrow>
            components cs ! k =
              Ptr (stored_handle W (StripConstPtr (COMPS ! k)) (ind s ! k ! i) (world s)))"
proof (intro conjI impI allI)
  assume "array_contract W COMPS i s"
  with assms(1,2,3) obtain cs where "fst (operator_index W oob COMPS i s) = Inr cs"
    by (rule operator_index_succeeds)
  then show "\<exists>cs. fst (operator_index W oob COMPS i s) = Inr cs" ..
next
  fix cs
  assume "fst (operator_index W oob COMPS i s) = Inr cs"
  then show "components cs ! k =
              Ptr (stored_handle W (StripConstPtr (COMPS ! k)) (ind s ! k ! i) (world s))"
    by (rule operator_index_optional_field [OF assms(1,2,3) _ assms(4,5)])
qed

theorem optional_fidelity_witness:
  "read_only example_world \<and> well_formed example_comps example_view \<and>
   1 < size_view example_view \<and> 1 < length example_comps \<and> is_pointer_v (example_comps ! 1) \<and>
   array_contract example_world example_comps 1 example_view \<and>
   array_contract example_world example_comps 0 example_view \<and>
   stored_handle example_world Velocity 9 (world example_view) = None \<and>
   fst (operator_index example_world range_checked example_comps 1 example_view) =
     Inr \<lparr>entity = 12, components = [Ref (Position, 5), Ptr None]\<rparr> \<and>
   (\<exists>cs. fst (operator_index example_world range_checked example_comps 1 example_view) = Inr cs \<and>
      components cs ! 1 = Ptr None) \<and>
   stored_handle example_world Velocity 7 (world example_view) = Some (Velocity, 7) \<and>
   fst (operator_index example_world range_checked example_comps 0 example_view) =
     Inr \<lparr>entity = 11, components = [Ref (Position, 2), Ptr (Some (Velocity, 7))]\<rparr> \<and>
   (\<exists>cs. fst (operator_index example_world range_checked example_comps 0 example_view) = Inr cs \<and>
      components cs ! 1 = Ptr (Some (Velocity, 7)))"
proof -
  have h3: "1 < size_view example_view" and h3': "0 < size_view example_view"
    by (simp_all add: example_view_def)
  have h4: "1 < length example_comps" and h5: "is_pointer_v (example_comps ! 1)"
    by (simp_all add: example_comps_def)
  have run1: "fst (operator_index example_world range_checked example_comps 1 example_view) =
     Inr \<lparr>entity = 12, components = [Ref (Position, 5), Ptr None]\<rparr>"
    by (simp only: example_eval1 fst_conv)
  have run0: "fst (operator_index example_world range_checked example_comps 0 example_view) =
     Inr \<lparr>entity = 11, components = [Ref (Position, 2), Ptr (Some (Velocity, 7))]\<rparr>"
    by (simp only: example_eval0 fst_conv)
  note absent = optional_fidelity [OF example_read_only example_well_formed h3 h4 h5,
      of range_checked]
  note present = optional_fidelity [OF example_read_only example_well_formed h3' h4 h5,
      of range_checked]
  obtain cs1 where r1: "fst (operator_index example_world range_checked example_comps 1 example_view) = Inr cs1"
    using absent example_contract by blast
  have f1: "components cs1 ! 1 = Ptr None"
    using absent r1 by (simp add: example_layout example_handles)
  obtain cs0 where r0: "fst (operator_index example_world range_checked example_comps 0 example_view) = Inr cs0"
    using present example_contract0 by blast
  have f0: "components cs0 ! 1 = Ptr (Some (Velocity, 7))"
    using present r0 by (simp add: example_layout example_handles)
  show ?thesis
    using example_read_only example_well_formed h3 h4 h5 example_contract example_contract0
      example_handles(3,4) run0 run1 r1 f1 r0 f0
    by blast
qed



text \<open>
  C8. With collaborators that only read, so that nothing mutates the world between the
  calls, a second access at the same position returns a result equal to the first:
  the same ComponentSet or the same failure. At a valid position of a well-formed view
  the result does not even depend on what the index storage does out of range.
\<close>

theorem repeated_access_equal:
  assumes "read_only W"
  shows "fst (operator_index W oob COMPS i (snd (operator_index W oob COMPS i s))) =
           fst (operator_index W oob COMPS i s) \<and>
         (well_formed COMPS s \<and> i < size_view s \<longrightarrow>
            fst (operator_index W oob' COMPS i (snd (operator_index W oob COMPS i s))) =
              fst (operator_index W oob COMPS i s))"
  using operator_index_read_only [OF assms, of oob COMPS i s]
    operator_index_oob_irrelevant [OF assms, of COMPS s i oob' oob]
  by simp

theorem repeated_access_equal_witness:
  "read_only example_world \<and> well_formed example_comps example_view \<and>
   1 < size_view example_view \<and>
   fst (operator_index example_world unchecked_zero example_comps 1
          (snd (operator_index example_world range_checked example_comps 1 example_view))) =
     fst (operator_index example_world range_checked example_comps 1 example_view)"
proof -
  have h3: "1 < size_view example_view"
    by (simp add: example_view_def)
  show ?thesis
    using example_read_only example_well_formed h3
      repeated_access_equal [OF example_read_only,
        where oob = range_checked and oob' = unchecked_zero and COMPS = example_comps
          and i = 1 and s = example_view]
    by simp
qed

text \<open>
  C9. The operator is a pure read. The index sequences of the view are never written,
  whatever the collaborators do; and when the collaborators only read the world, an
  access leaves the whole state, the view and the world it refers to, as it was. The
  only thing produced is the returned ComponentSet.
\<close>

theorem operator_index_pure_read:
  "ind (snd (operator_index W oob COMPS i s)) = ind s \<and>
   (read_only W \<longrightarrow> snd (operator_index W oob COMPS i s) = s)"
  by (simp add: operator_index_ind operator_index_read_only)

theorem operator_index_pure_read_witness:
  "read_only example_world \<and>
   snd (operator_index example_world range_checked example_comps 1 example_view) = example_view"
  using operator_index_pure_read [of example_world range_checked example_comps 1 example_view]
    example_read_only by simp

text \<open>
  C10. The identifier and the first field of \<open>view[i]\<close> come from the same stored index
  \<open>ind_[0][i]\<close>: the identifier is the one the World resolves that index of the first
  kind to, and the first field is the handle that the first kind's array reports at that
  index. Nothing is assumed of the other index sequences, which may be misaligned.
\<close>

theorem entity_owns_first_component:
  assumes "read_only W" and "FirstComponentType COMPS = Some k0" and "i < size_view s"
    and "fst (operator_index W oob COMPS i s) = Inr cs"
  shows "entity cs = resolve_entity_id W k0 (ind s ! 0 ! i) (world s) \<and>
         handle_of (components cs ! 0) = stored_handle W k0 (ind s ! 0 ! i) (world s)"
proof -
  obtain C Cs where COMPS: "COMPS = C # Cs" and k0: "k0 = StripConstPtr C"
    using assms(2) by (cases COMPS) auto
  have range: "0 < length (ind s)" "i < length (ind s ! 0)"
    using assms(3) by (cases "ind s"; simp)+
  have pe: "fst (pack_expansion W oob i COMPS 0 s) = Inr (components cs)"
    by (rule operator_index_Inr_read_only [OF assms])
  have "fst (get_component W oob i (COMPS ! 0) (0 + 0) s) = Inr (components cs ! 0)"
    using pack_expansion_nth [OF assms(1) pe, of 0] COMPS by simp
  then have "MaybeDeref (is_pointer_v C) (stored_handle W k0 (ind s ! 0 ! i) (world s)) =
             Inr (components cs ! 0)"
    using get_component_value [OF assms(1) range, of oob C] COMPS k0 by simp
  then have "handle_of (components cs ! 0) = stored_handle W k0 (ind s ! 0 ! i) (world s)"
    by (rule MaybeDeref_handle)
  moreover have "entity cs = resolve_entity_id W k0 (ind s ! 0 ! i) (world s)"
    using operator_index_Inr [OF assms(2,3,4)] by (simp add: resolve_entity_id_def)
  ultimately show ?thesis by simp
qed

theorem entity_owns_first_component_witness:
  "read_only example_world \<and> FirstComponentType example_comps = Some Position \<and>
   1 < size_view misaligned_view \<and>
   fst (operator_index example_world range_checked example_comps 1 misaligned_view) =
     Inr \<lparr>entity = 12, components = [Ref (Position, 5), Ptr (Some (Velocity, 7))]\<rparr> \<and>
   12 = resolve_entity_id example_world Position 5 (world misaligned_view) \<and>
   Some (Position, 5) = stored_handle example_world Position 5 (world misaligned_view) \<and>
   resolve_entity_id example_world Velocity 7 (world misaligned_view) = 11"
proof -
  have h2: "FirstComponentType example_comps = Some Position"
    by (simp add: example_comps_def)
  have h3: "1 < size_view misaligned_view"
    by (simp add: misaligned_view_def)
  have h4: "fst (operator_index example_world range_checked example_comps 1 misaligned_view) =
     Inr \<lparr>entity = 12, components = [Ref (Position, 5), Ptr (Some (Velocity, 7))]\<rparr>"
    by (simp add: operator_index_def get_component_def subscript_def example_world_def
        misaligned_view_def example_comps_def)
  have h5: "resolve_entity_id example_world Velocity 7 (world misaligned_view) = 11"
    by (simp add: resolve_entity_id_def example_world_def misaligned_view_def)
  have i5: "ind misaligned_view ! 0 ! Suc 0 = 5"
    by (simp add: misaligned_view_def)
  show ?thesis
    using example_read_only h2 h3 h4 h5
      entity_owns_first_component [OF example_read_only h2 h3 h4]
    by (simp add: i5)
qed

end
